theory Spec2Isabelle
  imports Complex_Main "HOL-Library.Log_Nat"
begin

section \<open>Shor's algorithm for the modulus 15: the classical side of \<open>factors.py\<close>\<close>

text \<open>
  The program builds quantum circuits with an external library, has them sampled once by
  the library's simulator and post-processes the sample: one float division, then exact
  integer and rational arithmetic. The embedding keeps what the program itself does: which
  gates it appends to which qubits, in which order, and what it computes from the sampled
  integer. A float is modelled by the rational number that is its value. The
  simulator is a parameter: a function from the submitted circuit to the sampled integer.
  Exceptions that only the library could raise while a circuit is assembled are outside
  the embedding.
\<close>

subsection \<open>Errors\<close>

text \<open>
  \<open>ValueError_common_factors\<close> is the \<^verbatim>\<open>ValueError\<close> raised by \<^verbatim>\<open>c_amod15\<close>;
  \<open>ValueError_max_denominator\<close> is the \<^verbatim>\<open>ValueError\<close> of
  \<^verbatim>\<open>Fraction.limit_denominator\<close> for a bound below 1; \<open>ZeroDivisionError\<close> is what
  \<^verbatim>\<open>/\<close>, \<^verbatim>\<open>//\<close>, \<^verbatim>\<open>%\<close> and \<^verbatim>\<open>Fraction(p, 0)\<close> raise; \<open>OverflowError\<close> is what \<^verbatim>\<open>/\<close> raises for
  two integers whose quotient is too large for a float.
\<close>

datatype error =
  ValueError_common_factors | ValueError_max_denominator | ZeroDivisionError | OverflowError

subsection \<open>Small circuits: \<^verbatim>\<open>QuantumCircuit(4)\<close>, \<^verbatim>\<open>swap\<close>, \<^verbatim>\<open>x\<close>\<close>

datatype gate = SwapGate nat nat | XGate nat

record quantum_circuit =
  num_qubits :: nat
  data :: "gate list"

definition QuantumCircuit :: "nat \<Rightarrow> quantum_circuit" where
  "QuantumCircuit n = \<lparr>num_qubits = n, data = []\<rparr>"

definition swap :: "quantum_circuit \<Rightarrow> nat \<Rightarrow> nat \<Rightarrow> quantum_circuit" where
  "swap U i j = U\<lparr>data := data U @ [SwapGate i j]\<rparr>"

definition x :: "quantum_circuit \<Rightarrow> nat \<Rightarrow> quantum_circuit" where
  "x U q = U\<lparr>data := data U @ [XGate q]\<rparr>"

text \<open>Decimal text of an integer, as an f-string prints it.\<close>

fun str_nat :: "nat \<Rightarrow> string" where
  "str_nat n =
     (if n < 10 then [''0123456789'' ! n]
      else str_nat (n div 10) @ [''0123456789'' ! (n mod 10)])"

definition str :: "int \<Rightarrow> string" where
  "str i = (if i < 0 then CHR ''-'' # str_nat (nat (- i)) else str_nat (nat i))"

text \<open>
  \<^verbatim>\<open>U.to_gate()\<close> wraps a circuit as a named gate, and \<^verbatim>\<open>U.control()\<close> adds one control
  qubit in front of the gate's own qubits.
\<close>

datatype named_gate = Gate string quantum_circuit

datatype controlled_gate = ControlledGate named_gate

definition to_gate :: "quantum_circuit \<Rightarrow> named_gate" where
  "to_gate U = Gate ''circuit'' U"

fun set_name :: "named_gate \<Rightarrow> string \<Rightarrow> named_gate" where
  "set_name (Gate old U) new = Gate new U"

definition control :: "named_gate \<Rightarrow> controlled_gate" where
  "control U = ControlledGate U"

subsection \<open>\<^verbatim>\<open>c_amod15\<close>\<close>

definition c_amod15 :: "int \<Rightarrow> int \<Rightarrow> error + controlled_gate" where
  "c_amod15 a N =
     (if a \<notin> set [2, 4, 7, 8, 11, 13] then Inl ValueError_common_factors
      else
        let U = QuantumCircuit 4;
            U = (if a \<in> set [2, 13] then swap (swap (swap U 2 3) 1 2) 0 1 else U);
            U = (if a \<in> set [7, 8] then swap (swap (swap U 0 1) 1 2) 2 3 else U);
            U = (if a \<in> set [4, 11] then swap (swap U 1 3) 0 2 else U);
            U = (if a \<in> set [7, 11, 13] then fold (\<lambda>q U. x U q) [0..<4] U else U);
            U = to_gate U;
            U = set_name U (str a @ '' mod '' @ str N);
            c_U = control U
        in Inr c_U)"

text \<open>The circuit inside a controlled gate: the transform applied when the control is set.\<close>

fun base_circuit :: "controlled_gate \<Rightarrow> quantum_circuit" where
  "base_circuit (ControlledGate (Gate nm U)) = U"

subsection \<open>What the gates do to a register of classical bits\<close>

text \<open>
  On a basis state a swap exchanges the bits at two positions and an X gate negates one
  bit. A register is the list of its bits, qubit 0 first. A gate that names a position
  outside the register leaves the register as it is (the library refuses to build such a
  gate).
\<close>

fun apply_gate :: "gate \<Rightarrow> bool list \<Rightarrow> bool list" where
  "apply_gate (SwapGate i j) bs =
     (if i < length bs \<and> j < length bs then bs[i := bs ! j, j := bs ! i] else bs)"
| "apply_gate (XGate q) bs =
     (if q < length bs then bs[q := \<not> bs ! q] else bs)"

definition apply_circuit :: "quantum_circuit \<Rightarrow> bool list \<Rightarrow> bool list" where
  "apply_circuit U bs = fold apply_gate (data U) bs"

text \<open>
  The controlled gate acts on the control bit followed by the target bits: the base
  circuit runs on the target when the control bit is set, and nothing happens otherwise.
\<close>

fun apply_controlled :: "controlled_gate \<Rightarrow> bool list \<Rightarrow> bool list" where
  "apply_controlled c_U [] = []"
| "apply_controlled c_U (c # bs) =
     (if c then c # apply_circuit (base_circuit c_U) bs else c # bs)"

text \<open>
  The multiplicative order of \<open>a\<close> modulo \<open>N\<close>, in the words of the specification: the
  least positive \<open>k\<close> with \<open>a ^ k mod N = 1\<close>.
\<close>

definition is_multiplicative_order :: "int \<Rightarrow> int \<Rightarrow> nat \<Rightarrow> bool" where
  "is_multiplicative_order a N k \<longleftrightarrow>
     0 < k \<and> a ^ k mod N = 1 \<and> (\<forall>j \<in> {1..<k}. a ^ j mod N \<noteq> 1)"

subsection \<open>\<^verbatim>\<open>phase_estimation\<close>\<close>

text \<open>
  The estimation circuit is the list of the instructions appended to it, each with the
  qubits it acts on. The control register holds qubits \<open>0 ..< precision\<close>, the target
  register the next \<open>num_qubits psi_prep\<close> qubits, and the classical output register bits
  \<open>0 ..< precision\<close>.
\<close>

datatype 'op instruction =
    ComposeCircuit quantum_circuit "nat list"
  | HGate nat
  | ComposeOperation 'op "nat list"
  | ComposeQFT nat bool "nat list"
  | Measure "nat list" "nat list"

record 'op estimation_circuit =
  control_register :: "nat list"
  target_register :: "nat list"
  output_register :: "nat list"
  instructions :: "'op instruction list"

text \<open>
  The loop over \<^verbatim>\<open>enumerate(control_register)\<close>: a Hadamard gate on the control qubit, then
  \<^verbatim>\<open>2**index\<close> times the controlled operation on that qubit followed by the target register.
\<close>

fun compose_repeatedly :: "nat \<Rightarrow> 'op instruction \<Rightarrow> 'op instruction list \<Rightarrow> 'op instruction list" where
  "compose_repeatedly 0 ins qc = qc"
| "compose_repeatedly (Suc n) ins qc = compose_repeatedly n ins (qc @ [ins])"

fun estimation_loop ::
  "'op \<Rightarrow> nat list \<Rightarrow> (nat \<times> nat) list \<Rightarrow> 'op instruction list \<Rightarrow> 'op instruction list" where
  "estimation_loop controlled_operation target [] qc = qc"
| "estimation_loop controlled_operation target ((index, qubit) # rest) qc =
     estimation_loop controlled_operation target rest
       (compose_repeatedly (2 ^ index)
          (ComposeOperation controlled_operation (qubit # target))
          (qc @ [HGate qubit]))"

definition build_circuit :: "'op \<Rightarrow> quantum_circuit \<Rightarrow> nat \<Rightarrow> 'op estimation_circuit" where
  "build_circuit controlled_operation psi_prep precision =
     (let control = [0..<precision];
          output = [0..<precision];
          target = [precision..<precision + num_qubits psi_prep];
          qc = [ComposeCircuit psi_prep target];
          qc = estimation_loop controlled_operation target (enumerate 0 control) qc;
          qc = qc @ [ComposeQFT precision True control];
          qc = qc @ [Measure control output]
      in \<lparr>control_register = control, target_register = target,
          output_register = output, instructions = qc\<rparr>)"

text \<open>
  Python's \<^verbatim>\<open>a / b\<close> for two integers is the double-precision float nearest to the exact
  quotient, a tie going to the float whose last mantissa bit is 0. A float has 53 mantissa
  bits; its exponent is at least \<open>-1022\<close>, smaller numbers keeping the spacing
  \<open>2 ^ -1074\<close>; and a quotient that rounds to \<open>2 ^ 1024\<close> or more raises. With \<open>e\<close> the
  exponent of the quotient, the result is the quotient rounded to a multiple of
  \<open>2 ^ (e - 52)\<close>.
\<close>

definition pow2 :: "int \<Rightarrow> rat" where
  "pow2 s = (if 0 \<le> s then 2 ^ nat s else 1 / 2 ^ nat (- s))"

text \<open>The integer nearest to \<open>num / den\<close> for positive \<open>den\<close>, a tie going to the even one.\<close>

definition round_half_even :: "int \<Rightarrow> int \<Rightarrow> int" where
  "round_half_even num den =
     (let q = num div den; r = num mod den
      in if 2 * r > den \<or> (2 * r = den \<and> odd q) then q + 1 else q)"

text \<open>
  The exponent of \<open>a / b\<close> for positive \<open>a\<close> and \<open>b\<close>: the \<open>e\<close> with
  \<open>2 ^ e \<le> a / b < 2 ^ (e + 1)\<close>, found from the bit lengths of \<open>a\<close> and \<open>b\<close>.
\<close>

definition binade :: "int \<Rightarrow> int \<Rightarrow> int" where
  "binade a b =
     (let diff = bitlen a - bitlen b
      in if (if 0 \<le> diff then b * 2 ^ nat diff \<le> a else b \<le> a * 2 ^ nat (- diff))
         then diff else diff - 1)"

definition true_divide :: "int \<Rightarrow> int \<Rightarrow> error + rat" where
  "true_divide a b =
     (if b = 0 then Inl ZeroDivisionError
      else if a = 0 then Inr 0
      else
        let e = max (binade \<bar>a\<bar> \<bar>b\<bar>) (- 1022);
            s = e - 52;
            n = (if 0 \<le> s then round_half_even \<bar>a\<bar> (\<bar>b\<bar> * 2 ^ nat s)
                 else round_half_even (\<bar>a\<bar> * 2 ^ nat (- s)) \<bar>b\<bar>);
            y = of_int n * pow2 s
        in if 2 ^ 1024 \<le> y then Inl OverflowError
           else Inr (if (a < 0) \<noteq> (b < 0) then - y else y))"

text \<open>
  The sampler stands for \<^verbatim>\<open>Sampler().run(qc, shots=1).result().quasi_dists[0].popitem()[0]\<close>:
  the one integer the simulator draws for the submitted circuit. The function returns the
  float \<^verbatim>\<open>measurement / 2**precision\<close>.
\<close>

type_synonym 'op sampler = "'op estimation_circuit \<Rightarrow> int"

definition phase_estimation ::
  "'op sampler \<Rightarrow> 'op \<Rightarrow> quantum_circuit \<Rightarrow> nat \<Rightarrow> error + rat" where
  "phase_estimation sampler controlled_operation psi_prep precision =
     (let qc = build_circuit controlled_operation psi_prep precision;
          measurement = sampler qc
      in true_divide measurement (2 ^ precision))"

text \<open>The applications of a controlled operation whose control (first) qubit is \<open>i\<close>.\<close>

fun controlled_on :: "nat \<Rightarrow> 'op instruction \<Rightarrow> bool" where
  "controlled_on i (ComposeOperation g (q # qs)) = (q = i)"
| "controlled_on i ins = False"

text \<open>
  What one pass of the loop appends for the pair \<open>(index, qubit)\<close>, written without the loop.
\<close>

definition control_block :: "'op \<Rightarrow> nat list \<Rightarrow> nat \<times> nat \<Rightarrow> 'op instruction list" where
  "control_block controlled_operation target p =
     HGate (snd p) # replicate (2 ^ fst p) (ComposeOperation controlled_operation (snd p # target))"

subsection \<open>\<^verbatim>\<open>Fraction(phase).limit_denominator(N).denominator\<close>\<close>

text \<open>
  A \<^verbatim>\<open>Fraction\<close> is a rational number kept in lowest terms with a positive denominator,
  which is how \<^typ>\<open>rat\<close> is represented by \<^const>\<open>quotient_of\<close>. \<^verbatim>\<open>Fraction(phase)\<close> is the
  exact value of the float, the rational that models it. The method below follows the standard library of
  Python 3.11 line by line.
\<close>

definition numerator :: "rat \<Rightarrow> int" where
  "numerator f = fst (quotient_of f)"

definition denominator :: "rat \<Rightarrow> int" where
  "denominator f = snd (quotient_of f)"

definition Fraction :: "int \<Rightarrow> int \<Rightarrow> error + rat" where
  "Fraction p q = (if q = 0 then Inl ZeroDivisionError else Inr (Fract p q))"

function limit_denominator_loop ::
  "int \<Rightarrow> int \<Rightarrow> int \<Rightarrow> int \<Rightarrow> int \<Rightarrow> int \<Rightarrow> int \<Rightarrow> error + (int \<times> int \<times> int \<times> int)" where
  "limit_denominator_loop max_denominator p0 q0 p1 q1 n d =
     (if d = 0 then Inl ZeroDivisionError
      else
        let a = n div d;
            q2 = q0 + a * q1
        in if q2 > max_denominator then Inr (p0, q0, p1, q1)
           else limit_denominator_loop max_denominator p1 q1 (p0 + a * p1) q2 d (n - a * d))"
  by pat_completeness auto
termination
proof (relation "measure (\<lambda>(m, p0, q0, p1, q1, n, d). nat \<bar>d\<bar>)")
  show "wf (measure (\<lambda>(m, p0, q0, p1, q1, n, d). nat \<bar>d\<bar>))"
    by simp
next
  fix max_denominator p0 q0 p1 q1 n d :: int and a q2 :: int
  assume d: "d \<noteq> 0" and a: "a = n div d"
  have "n - a * d = n mod d"
    unfolding a by (simp add: minus_div_mult_eq_mod)
  moreover have "\<bar>n mod d\<bar> < \<bar>d\<bar>"
    using d by (rule abs_mod_less)
  ultimately show
    "((max_denominator, p1, q1, p0 + a * p1, q2, d, n - a * d),
      (max_denominator, p0, q0, p1, q1, n, d))
     \<in> measure (\<lambda>(m, p0, q0, p1, q1, n, d). nat \<bar>d\<bar>)"
    by simp
qed

definition limit_denominator :: "rat \<Rightarrow> int \<Rightarrow> error + rat" where
  "limit_denominator self max_denominator =
     (if max_denominator < 1 then Inl ValueError_max_denominator
      else if denominator self \<le> max_denominator then Inr self
      else
        case limit_denominator_loop max_denominator 0 1 1 0 (numerator self) (denominator self) of
          Inl e \<Rightarrow> Inl e
        | Inr (p0, q0, p1, q1) \<Rightarrow>
            if q1 = 0 then Inl ZeroDivisionError
            else
              let k = (max_denominator - q0) div q1 in
              case Fraction (p0 + k * p1) (q0 + k * q1) of
                Inl e \<Rightarrow> Inl e
              | Inr bound1 \<Rightarrow>
                  (case Fraction p1 q1 of
                     Inl e \<Rightarrow> Inl e
                   | Inr bound2 \<Rightarrow>
                       if \<bar>bound2 - self\<bar> \<le> \<bar>bound1 - self\<bar> then Inr bound2
                       else Inr bound1))"

definition extract_period :: "rat \<Rightarrow> int \<Rightarrow> error + int" where
  "extract_period phase N =
     (case limit_denominator phase N of
        Inl e \<Rightarrow> Inl e
      | Inr fraction \<Rightarrow> Inr (denominator fraction))"

subsection \<open>The search loop of the main program\<close>

text \<open>
  What the program prints, one constructor per \<^verbatim>\<open>print\<close> call: the attempt number, the
  period \<open>r\<close>, the two guesses, and a factor that was found.
\<close>

datatype line = PrintAttempt nat | PrintR int | PrintGuessed int int | PrintFactor int

record driver_state =
  FACTOR_FOUND :: bool
  ATTEMPT :: nat
  stdout :: "line list"

definition print :: "line \<Rightarrow> driver_state \<Rightarrow> driver_state" where
  "print l st = st\<lparr>stdout := stdout st @ [l]\<rparr>"

definition psi_prep :: quantum_circuit where
  "psi_prep = x (QuantumCircuit 4) 0"

text \<open>
  \<^verbatim>\<open>[gcd(a ** (r // 2) - 1, N), gcd(a ** (r // 2) + 1, N)]\<close>. The period \<open>r\<close> is a
  denominator, so \<open>r // 2\<close> is never negative and the power is an integer.
\<close>

definition guesses_of :: "int \<Rightarrow> int \<Rightarrow> int \<Rightarrow> int list" where
  "guesses_of a r N = [gcd (a ^ nat (r div 2) - 1) N, gcd (a ^ nat (r div 2) + 1) N]"

text \<open>
  The loop \<^verbatim>\<open>for guess in guesses\<close>. The test
  \<^verbatim>\<open>guess not in [1, N] and (N % guess) == 0\<close> evaluates its second part only when the
  first holds, and \<^verbatim>\<open>%\<close> raises for a zero divisor.
\<close>

fun check_guesses :: "int \<Rightarrow> int list \<Rightarrow> driver_state \<Rightarrow> (error \<times> driver_state) + driver_state" where
  "check_guesses N [] st = Inr st"
| "check_guesses N (guess # rest) st =
     (if guess \<in> set [1, N] then check_guesses N rest st
      else if guess = 0 then Inl (ZeroDivisionError, st)
      else if N mod guess = 0
        then check_guesses N rest ((print (PrintFactor guess) st)\<lparr>FACTOR_FOUND := True\<rparr>)
        else check_guesses N rest st)"

text \<open>
  One pass through the body of \<^verbatim>\<open>while not FACTOR_FOUND\<close>, with the sampler that this
  pass's \<^verbatim>\<open>Sampler()\<close> stands for. An exception leaves the loop with the state reached so
  far.
\<close>

definition attempt ::
  "int \<Rightarrow> int \<Rightarrow> controlled_gate sampler \<Rightarrow> driver_state \<Rightarrow> (error \<times> driver_state) + driver_state" where
  "attempt a N sampler st =
     (let st = st\<lparr>ATTEMPT := ATTEMPT st + 1\<rparr>;
          st = print (PrintAttempt (ATTEMPT st)) st
      in case c_amod15 a N of
           Inl e \<Rightarrow> Inl (e, st)
         | Inr c_U \<Rightarrow>
             (case phase_estimation sampler c_U psi_prep 8 of
                Inl e \<Rightarrow> Inl (e, st)
              | Inr phase \<Rightarrow>
                  (case extract_period phase N of
                     Inl e \<Rightarrow> Inl (e, st)
                   | Inr r \<Rightarrow>
                       let st = print (PrintR r) st in
                       if phase \<noteq> 0 then
                         let guesses = guesses_of a r N;
                             st = print (PrintGuessed (guesses ! 0) (guesses ! 1)) st
                         in check_guesses N guesses st
                       else Inr st)))"

text \<open>
  The loop itself. Each pass draws from a fresh sampler, so the run is driven by the list of
  the samplers of the successive passes. \<open>None\<close> means that the list was used up with
  \<^verbatim>\<open>FACTOR_FOUND\<close> still false: the program would still be looping.
\<close>

fun shor_loop ::
  "int \<Rightarrow> int \<Rightarrow> controlled_gate sampler list \<Rightarrow> driver_state
     \<Rightarrow> ((error \<times> driver_state) + driver_state) option" where
  "shor_loop a N [] st = (if FACTOR_FOUND st then Some (Inr st) else None)"
| "shor_loop a N (sampler # rest) st =
     (if FACTOR_FOUND st then Some (Inr st)
      else case attempt a N sampler st of
             Inl e \<Rightarrow> Some (Inl e)
           | Inr st' \<Rightarrow> shor_loop a N rest st')"

definition main ::
  "controlled_gate sampler list \<Rightarrow> ((error \<times> driver_state) + driver_state) option" where
  "main samplers = shor_loop 8 15 samplers \<lparr>FACTOR_FOUND = False, ATTEMPT = 0, stdout = []\<rparr>"

text \<open>The factors a state's output reports.\<close>

fun reported :: "line list \<Rightarrow> int list" where
  "reported [] = []"
| "reported (PrintFactor g # ls) = g # reported ls"
| "reported (l # ls) = reported ls"

text \<open>The state a pass or a run ends in, whether it returned or raised.\<close>

fun final_state :: "(error \<times> driver_state) + driver_state \<Rightarrow> driver_state" where
  "final_state (Inl (e, st)) = st"
| "final_state (Inr st) = st"

section \<open>The operator table\<close>

lemma base_c_amod15:
  "a \<in> {2, 4, 7, 8, 11, 13} \<Longrightarrow>
   c_amod15 a N = Inr (ControlledGate (Gate (str a @ '' mod '' @ str N)
     \<lparr>num_qubits = 4,
      data = (if a \<in> {2, 13} then [SwapGate 2 3, SwapGate 1 2, SwapGate 0 1] else [])
           @ (if a \<in> {7, 8} then [SwapGate 0 1, SwapGate 1 2, SwapGate 2 3] else [])
           @ (if a \<in> {4, 11} then [SwapGate 1 3, SwapGate 0 2] else [])
           @ (if a \<in> {7, 11, 13} then [XGate 0, XGate 1, XGate 2, XGate 3] else [])\<rparr>))"
  by (auto simp add: c_amod15_def swap_def x_def QuantumCircuit_def to_gate_def control_def
        Let_def upt_conv_Cons)

text \<open>The permutation of a four-bit register that each multiplier's circuit performs.\<close>

lemma transform_values:
  assumes "c_amod15 a N = Inr c_U"
  shows "a = 2 \<Longrightarrow> apply_circuit (base_circuit c_U) [b0, b1, b2, b3] = [b3, b0, b1, b2]"
    and "a = 13 \<Longrightarrow>
           apply_circuit (base_circuit c_U) [b0, b1, b2, b3] = [\<not> b3, \<not> b0, \<not> b1, \<not> b2]"
    and "a = 8 \<Longrightarrow> apply_circuit (base_circuit c_U) [b0, b1, b2, b3] = [b1, b2, b3, b0]"
    and "a = 7 \<Longrightarrow>
           apply_circuit (base_circuit c_U) [b0, b1, b2, b3] = [\<not> b1, \<not> b2, \<not> b3, \<not> b0]"
    and "a = 4 \<Longrightarrow> apply_circuit (base_circuit c_U) [b0, b1, b2, b3] = [b2, b3, b0, b1]"
    and "a = 11 \<Longrightarrow>
           apply_circuit (base_circuit c_U) [b0, b1, b2, b3] = [\<not> b2, \<not> b3, \<not> b0, \<not> b1]"
  using assms by (auto simp add: base_c_amod15 apply_circuit_def eval_nat_numeral)

text \<open>
  Claim C5. For each multiplier of the table, \<^verbatim>\<open>c_amod15\<close> builds a circuit on 4 qubits
  whose gates are, in order: for 2 and 13 the swaps (2,3), (1,2), (0,1); for 7 and 8 the
  swaps (0,1), (1,2), (2,3); for 4 and 11 the swaps (1,3), (0,2); and for 7, 11 and 13 an
  X gate on each of the qubits 0, 1, 2, 3 after the swaps. On a register
  \<open>[b0, b1, b2, b3]\<close> the first chain moves every bit one place to the right (the last bit
  comes first) and the second chain one place to the left.
\<close>

theorem c_amod15_case_table:
  "map_sum id base_circuit (c_amod15 2 N) =
     Inr \<lparr>num_qubits = 4, data = [SwapGate 2 3, SwapGate 1 2, SwapGate 0 1]\<rparr> \<and>
   map_sum id base_circuit (c_amod15 13 N) =
     Inr \<lparr>num_qubits = 4, data = [SwapGate 2 3, SwapGate 1 2, SwapGate 0 1,
                                   XGate 0, XGate 1, XGate 2, XGate 3]\<rparr> \<and>
   map_sum id base_circuit (c_amod15 8 N) =
     Inr \<lparr>num_qubits = 4, data = [SwapGate 0 1, SwapGate 1 2, SwapGate 2 3]\<rparr> \<and>
   map_sum id base_circuit (c_amod15 7 N) =
     Inr \<lparr>num_qubits = 4, data = [SwapGate 0 1, SwapGate 1 2, SwapGate 2 3,
                                   XGate 0, XGate 1, XGate 2, XGate 3]\<rparr> \<and>
   map_sum id base_circuit (c_amod15 4 N) =
     Inr \<lparr>num_qubits = 4, data = [SwapGate 1 3, SwapGate 0 2]\<rparr> \<and>
   map_sum id base_circuit (c_amod15 11 N) =
     Inr \<lparr>num_qubits = 4, data = [SwapGate 1 3, SwapGate 0 2,
                                   XGate 0, XGate 1, XGate 2, XGate 3]\<rparr> \<and>
   map_sum id (\<lambda>c_U. apply_circuit (base_circuit c_U) [b0, b1, b2, b3]) (c_amod15 2 N) =
     Inr [b3, b0, b1, b2] \<and>
   map_sum id (\<lambda>c_U. apply_circuit (base_circuit c_U) [b0, b1, b2, b3]) (c_amod15 8 N) =
     Inr [b1, b2, b3, b0]"
  by (simp add: base_c_amod15 apply_circuit_def eval_nat_numeral)

subsection \<open>Repeating the transform as often as the order of the multiplier\<close>

lemma funpow_four: "(f ^^ 4) z = f (f (f (f z)))"
  by (simp add: eval_nat_numeral)

lemma funpow_two: "(f ^^ 2) z = f (f z)"
  by (simp add: eval_nat_numeral)

lemma order_le_4:
  assumes "a \<in> {2, 4, 7, 8, 11, 13}" and "is_multiplicative_order a 15 k"
  shows "k \<in> {1, 2, 3, 4}"
proof -
  have p4: "a ^ 4 mod 15 = 1"
    using assms(1) by auto
  have "\<not> 4 < k"
  proof
    assume "4 < k"
    then have "4 \<in> {1..<k}" by simp
    with assms(2) have "a ^ 4 mod 15 \<noteq> 1"
      unfolding is_multiplicative_order_def by blast
    with p4 show False by simp
  qed
  moreover have "0 < k"
    using assms(2) by (simp add: is_multiplicative_order_def)
  ultimately show ?thesis by auto
qed

lemma order_two:
  assumes "a \<in> {4, 11}" and "is_multiplicative_order a 15 k"
  shows "k = 2"
proof -
  have k: "k \<in> {1, 2, 3, 4}"
    using assms by (intro order_le_4) auto
  have "a ^ 1 mod 15 \<noteq> 1" and sq: "a ^ 2 mod 15 = 1"
    using assms(1) by auto
  moreover have "a ^ k mod 15 = 1"
    using assms(2) by (simp add: is_multiplicative_order_def)
  moreover have "2 < k \<longrightarrow> a ^ 2 mod 15 \<noteq> 1"
    using assms(2) by (simp add: is_multiplicative_order_def)
  ultimately show ?thesis
    using k by auto
qed

lemma order_four:
  assumes "a \<in> {2, 7, 8, 13}" and "is_multiplicative_order a 15 k"
  shows "k = 4"
proof -
  have k: "k \<in> {1, 2, 3, 4}"
    using assms by (intro order_le_4) auto
  have "a ^ 1 mod 15 \<noteq> 1" "a ^ 2 mod 15 \<noteq> 1" "a ^ 3 mod 15 \<noteq> 1"
    using assms(1) by auto
  moreover have "a ^ k mod 15 = 1"
    using assms(2) by (simp add: is_multiplicative_order_def)
  ultimately show ?thesis
    using k by auto
qed

lemma four_bits:
  assumes "length bs = 4"
  obtains b0 b1 b2 b3 where "bs = [b0, b1, b2, b3]"
  using assms by (auto simp: length_Suc_conv eval_nat_numeral)

text \<open>
  Claim C6. For every multiplier \<open>a\<close> of the table, with \<open>k\<close> the multiplicative order of
  \<open>a\<close> modulo 15, running the circuit built by \<^verbatim>\<open>c_amod15(a, 15)\<close> \<open>k\<close> times in a row gives
  back every 4-bit register unchanged.
\<close>

theorem c_amod15_order_identity:
  assumes "a \<in> {2, 4, 7, 8, 11, 13}" and "is_multiplicative_order a 15 k"
    and "length bs = 4"
  shows "\<exists>c_U. c_amod15 a 15 = Inr c_U \<and> (apply_circuit (base_circuit c_U) ^^ k) bs = bs"
proof -
  obtain b0 b1 b2 b3 where bs: "bs = [b0, b1, b2, b3]"
    using assms(3) by (rule four_bits)
  obtain c_U where c_U: "c_amod15 a 15 = Inr c_U"
    using assms(1) base_c_amod15 by blast
  note tv = transform_values [OF c_U]
  have "(apply_circuit (base_circuit c_U) ^^ k) bs = bs"
  proof (cases "a \<in> {4, 11}")
    case True
    then have "k = 2"
      using assms(2) by (rule order_two)
    with True show ?thesis
      unfolding bs by (auto simp add: funpow_two tv)
  next
    case False
    with assms(1) have a: "a \<in> {2, 7, 8, 13}" by auto
    then have "k = 4"
      using assms(2) by (rule order_four)
    with a show ?thesis
      unfolding bs by (auto simp add: funpow_four tv)
  qed
  with c_U show ?thesis by blast
qed

theorem c_amod15_order_identity_witness:
  "(8::int) \<in> {2, 4, 7, 8, 11, 13} \<and> is_multiplicative_order 8 15 4
   \<and> length [True, False, False, False] = 4
   \<and> (\<exists>c_U. c_amod15 8 15 = Inr c_U
        \<and> (apply_circuit (base_circuit c_U) ^^ 4) [True, False, False, False]
            = [True, False, False, False])"
proof -
  have o: "is_multiplicative_order 8 15 4"
    by code_simp
  show ?thesis
    using o c_amod15_order_identity [of 8 4 "[True, False, False, False]"] by simp
qed

section \<open>The estimation circuit and the estimate\<close>

lemma compose_repeatedly_eq: "compose_repeatedly n ins qc = qc @ replicate n ins"
  by (induction n arbitrary: qc) (simp_all add: replicate_app_Cons_same)

lemma estimation_loop_eq:
  "estimation_loop cop target ps qc = qc @ concat (map (control_block cop target) ps)"
  by (induction ps arbitrary: qc) (auto simp add: compose_repeatedly_eq control_block_def)

lemma filter_control_block:
  "filter (controlled_on i) (control_block cop target (j, j)) =
     (if j = i then replicate (2 ^ i) (ComposeOperation cop (i # target)) else [])"
  by (auto simp add: control_block_def filter_empty_conv)

lemma enumerate_upt: "enumerate 0 [0..<n] = map (\<lambda>j. (j, j)) [0..<n]"
  by (induction n) (simp_all add: enumerate_append_eq)

lemma filter_blocks:
  "filter (controlled_on i) (concat (map (\<lambda>j. control_block cop target (j, j)) [0..<n])) =
     (if i < n then replicate (2 ^ i) (ComposeOperation cop (i # target)) else [])"
  by (induction n) (auto simp add: filter_control_block simp del: replicate.simps)

text \<open>
  Claim C3. In the circuit that \<^verbatim>\<open>phase_estimation\<close> builds, the applications of a
  controlled operation whose control qubit is \<open>i\<close>, for \<open>i\<close> below the precision, are
  exactly \<open>2 ^ i\<close> copies of the given operation on qubit \<open>i\<close> followed by the target register.
\<close>

theorem phase_estimation_doubling:
  assumes "i < precision"
  shows "filter (controlled_on i) (instructions (build_circuit cop psi precision)) =
           replicate (2 ^ i)
             (ComposeOperation cop (i # target_register (build_circuit cop psi precision)))"
  using assms
  by (simp add: build_circuit_def Let_def estimation_loop_eq enumerate_upt comp_def filter_blocks)

theorem phase_estimation_doubling_witness:
  "(2::nat) < 3 \<and>
   filter (controlled_on 2) (instructions (build_circuit (ControlledGate (Gate ''U'' psi_prep)) psi_prep 3)) =
     replicate (2 ^ 2)
       (ComposeOperation (ControlledGate (Gate ''U'' psi_prep))
          (2 # target_register (build_circuit (ControlledGate (Gate ''U'' psi_prep)) psi_prep 3)))"
  using phase_estimation_doubling [of 2 3 "ControlledGate (Gate ''U'' psi_prep)" psi_prep]
  by simp

subsection \<open>The float division on a sample of the control register\<close>

lemma round_half_even_multiple: "0 < den \<Longrightarrow> round_half_even (q * den) den = q"
  by (simp add: round_half_even_def)

lemma binade_bounds:
  "bitlen a - bitlen b - 1 \<le> binade a b \<and> binade a b \<le> bitlen a - bitlen b"
  by (simp add: binade_def Let_def)

lemma bitlen_power_two: "bitlen (2 ^ p) = int p + 1"
proof -
  have "bitlen (1 * 2 ^ p) = bitlen 1 + int p"
    by (rule bitlen_pow2) simp
  moreover have "bitlen 1 = 1"
    by (simp add: bitlen_alt_def)
  ultimately show ?thesis by simp
qed

lemma bitlen_le:
  assumes "0 < m" and "m < 2 ^ p"
  shows "1 \<le> bitlen m \<and> bitlen m \<le> int p"
proof -
  have b: "2 ^ nat (bitlen m - 1) \<le> m"
    using bitlen_bounds [OF assms(1)] by simp
  have pos: "1 \<le> bitlen m"
    using assms(1) bitlen_eq_zero_iff [of m] bitlen_nonneg [of m] by (cases "bitlen m = 0") auto
  from b assms(2) have "(2::int) ^ nat (bitlen m - 1) < 2 ^ p" by linarith
  then have "nat (bitlen m - 1) < p"
    using power_less_imp_less_exp [of 2 "nat (bitlen m - 1)" p] by simp
  with pos show ?thesis by simp
qed

text \<open>The division when the exponent is below 52 and nothing overflows, step by step.\<close>

lemma true_divide_small:
  assumes "0 < a" and "0 < b"
    and "max (binade a b) (- 1022) = e" and "e < 52"
    and "round_half_even (a * 2 ^ nat (52 - e)) b = n"
    and "of_int n / 2 ^ nat (52 - e) = y" and "y < 2 ^ 1024"
  shows "true_divide a b = Inr y"
proof -
  have abs: "\<bar>a\<bar> = a" "\<bar>b\<bar> = b"
    using assms(1,2) by simp_all
  have s: "\<not> 0 \<le> e - 52" "nat (- (e - 52)) = nat (52 - e)"
    using assms(4) by simp_all
  have "true_divide a b =
      (if 2 ^ 1024 \<le> of_int n * pow2 (e - 52) then Inl OverflowError
       else Inr (of_int n * pow2 (e - 52)))"
    using assms(1,2,4)
    by (simp add: true_divide_def Let_def abs assms(3) s assms(5) del: power_numeral)
  moreover have "of_int n * pow2 (e - 52) = y"
    using s assms(6) by (simp add: pow2_def)
  ultimately show ?thesis
    using assms(7) by (simp del: power_numeral)
qed

text \<open>
  A positive integer below \<open>2 ^ p\<close> with \<open>p\<close> at most 53 has at most 53 bits, so its quotient
  by \<open>2 ^ p\<close> is a float and the division does not round.
\<close>

lemma true_divide_exact:
  assumes "0 < m" and "m < 2 ^ p" and "p \<le> 53"
  shows "true_divide m (2 ^ p) = Inr (of_int m / 2 ^ p)"
proof -
  define e where "e = binade m (2 ^ p)"
  have la: "1 \<le> bitlen m" "bitlen m \<le> int p"
    using bitlen_le [OF assms(1,2)] by simp_all
  have e: "bitlen m - int p - 2 \<le> e" "e \<le> bitlen m - int p - 1"
    using binade_bounds [of m "2 ^ p"] by (simp_all add: e_def bitlen_power_two)
  have emax: "max (binade m (2 ^ p)) (- 1022) = e"
    using e(1) la(1) assms(3) by (simp add: e_def)
  have lt: "e < 52"
    using e(2) la by simp
  define k where "k = nat (52 - e)"
  have k: "p \<le> k"
    using e(2) la assms(3) by (simp add: k_def)
  have split: "m * 2 ^ k = (m * 2 ^ (k - p)) * 2 ^ p"
    using k by (simp add: power_add [symmetric])
  have n: "round_half_even (m * 2 ^ nat (52 - e)) (2 ^ p) = m * 2 ^ (k - p)"
    unfolding k_def [symmetric] split by (rule round_half_even_multiple) simp
  have "(2::rat) ^ k = 2 ^ (k - p) * 2 ^ p"
    using k by (simp add: power_add [symmetric])
  then have y: "of_int (m * 2 ^ (k - p)) / 2 ^ nat (52 - e) = (of_int m :: rat) / 2 ^ p"
    unfolding k_def [symmetric] by simp
  have "(of_int m :: rat) < of_int (2 ^ p)"
    using assms(2) by (simp only: of_int_less_iff)
  then have lt1: "(of_int m :: rat) / 2 ^ p < 1"
    by (simp add: divide_less_eq)
  have "(1::rat) \<le> 2 ^ 1024"
    by (rule one_le_power) simp
  with lt1 have small: "(of_int m :: rat) / 2 ^ p < 2 ^ 1024"
    by (rule less_le_trans)
  show ?thesis
    by (rule true_divide_small [OF assms(1) _ emax lt n y small]) simp
qed

text \<open>
  With 54 bits the division rounds: the largest sample of a 54-bit control register,
  divided by \<open>2 ^ 54\<close>, gives the float 1.
\<close>

lemma true_divide_rounds_up: "true_divide (2 ^ 54 - 1) (2 ^ 54) = Inr 1"
  by code_simp

lemma phase_estimation_exact:
  assumes "0 \<le> sampler (build_circuit cop psi precision)"
    and "sampler (build_circuit cop psi precision) < 2 ^ precision"
    and "precision \<le> 53"
  shows "phase_estimation sampler cop psi precision =
           Inr (of_int (sampler (build_circuit cop psi precision)) / 2 ^ precision)"
proof -
  let ?m = "sampler (build_circuit cop psi precision)"
  have "true_divide ?m (2 ^ precision) = Inr (of_int ?m / 2 ^ precision)"
  proof (cases "?m = 0")
    case True
    then show ?thesis by (simp add: true_divide_def)
  next
    case False
    with assms(1) have "0 < ?m" by simp
    then show ?thesis
      using assms(2,3) by (rule true_divide_exact)
  qed
  then show ?thesis
    by (simp add: phase_estimation_def Let_def)
qed

text \<open>
  Claim C4. A call of \<^verbatim>\<open>phase_estimation\<close> returns one value, the integer that the sampler
  drew for the circuit divided by \<open>2 ^ precision\<close>; the sampler draws a value of the control
  register, an integer from 0 up to but excluding \<open>2 ^ precision\<close>, and so the value
  returned is at least 0 and below 1. This is for a precision of at most 53, where the
  float division is exact (the program's precision is 8).
\<close>

theorem phase_estimation_range:
  assumes "0 \<le> sampler (build_circuit cop psi precision)"
    and "sampler (build_circuit cop psi precision) < 2 ^ precision"
    and "precision \<le> 53"
  shows "\<exists>phase. phase_estimation sampler cop psi precision = Inr phase
           \<and> phase = of_int (sampler (build_circuit cop psi precision)) / 2 ^ precision
           \<and> 0 \<le> phase \<and> phase < 1"
proof -
  let ?m = "sampler (build_circuit cop psi precision)"
  have "(of_int ?m :: rat) < of_int (2 ^ precision)"
    using assms(2) by (simp only: of_int_less_iff)
  then have less: "(of_int ?m :: rat) / 2 ^ precision < 1"
    by (simp add: divide_less_eq)
  have nonneg: "(0::rat) \<le> of_int ?m / 2 ^ precision"
    using assms(1) by simp
  have "phase_estimation sampler cop psi precision = Inr (of_int ?m / 2 ^ precision)"
    using assms by (rule phase_estimation_exact)
  with nonneg less show ?thesis by blast
qed

theorem phase_estimation_range_witness:
  "(0::int) \<le> (\<lambda>qc. 64) (build_circuit (ControlledGate (Gate ''U'' psi_prep)) psi_prep 8)
   \<and> (\<lambda>qc. 64) (build_circuit (ControlledGate (Gate ''U'' psi_prep)) psi_prep 8) < (2::int) ^ 8
   \<and> (8::nat) \<le> 53
   \<and> phase_estimation (\<lambda>qc. 64) (ControlledGate (Gate ''U'' psi_prep)) psi_prep 8 = Inr (1 / 4)
   \<and> (0::rat) \<le> 1 / 4 \<and> (1::rat) / 4 < 1"
  using phase_estimation_range [of "\<lambda>qc. 64" "ControlledGate (Gate ''U'' psi_prep)" psi_prep 8]
  by auto

section \<open>The period and the search loop\<close>

subsection \<open>Values of the program's own run, \<open>a = 8\<close> and \<open>N = 15\<close>\<close>

lemma c_amod15_8: "c_amod15 8 15 = Inr (ControlledGate (Gate ''8 mod 15''
     \<lparr>num_qubits = 4, data = [SwapGate 0 1, SwapGate 1 2, SwapGate 2 3]\<rparr>))"
  by code_simp

lemma phase_64: "phase_estimation (\<lambda>qc. 64) c psi_prep 8 = Inr (1 / 4)"
  using true_divide_exact [of 64 8] by (simp add: phase_estimation_def)

lemma phase_0: "phase_estimation (\<lambda>qc. 0) c psi_prep 8 = Inr 0"
  by (simp add: phase_estimation_def true_divide_def)

lemma period_quarter: "extract_period (1 / 4) 15 = Inr 4"
  by code_simp

lemma guesses_8_4:
  "gcd ((8::int) ^ nat (4 div 2) - 1) 15 = 3" "gcd ((8::int) ^ nat (4 div 2) + 1) 15 = 5"
  "gcd (63::int) 15 = 3" "gcd (65::int) 15 = 5"
  by code_simp+


subsection \<open>What a pass through the loop does\<close>

lemma reported_append: "reported (xs @ ys) = reported xs @ reported ys"
  by (induction xs rule: reported.induct) simp_all

lemma check_guesses_ok:
  assumes "\<forall>g \<in> set gs. g = 0 \<longrightarrow> N = 0"
  shows "check_guesses N gs st =
           Inr (st\<lparr>stdout := stdout st @ map PrintFactor (filter (\<lambda>g. g \<noteq> 1 \<and> g \<noteq> N \<and> N mod g = 0) gs),
                   FACTOR_FOUND := FACTOR_FOUND st \<or> filter (\<lambda>g. g \<noteq> 1 \<and> g \<noteq> N \<and> N mod g = 0) gs \<noteq> []\<rparr>)"
  using assms
proof (induction gs arbitrary: st)
  case Nil
  then show ?case by simp
next
  case (Cons g gs)
  then have IH: "\<And>st. check_guesses N gs st =
           Inr (st\<lparr>stdout := stdout st @ map PrintFactor (filter (\<lambda>g. g \<noteq> 1 \<and> g \<noteq> N \<and> N mod g = 0) gs),
                   FACTOR_FOUND := FACTOR_FOUND st \<or> filter (\<lambda>g. g \<noteq> 1 \<and> g \<noteq> N \<and> N mod g = 0) gs \<noteq> []\<rparr>)"
    by simp
  from Cons.prems have g: "g = 0 \<longrightarrow> N = 0" by simp
  show ?case
    using g by (simp add: IH print_def)
qed

lemma check_guesses_reports:
  "\<exists>gs'. reported (stdout (final_state (check_guesses N gs st))) = reported (stdout st) @ gs'
       \<and> (\<forall>g \<in> set gs'. g \<noteq> 1 \<and> g \<noteq> N \<and> g dvd N)"
proof (induction gs arbitrary: st)
  case Nil
  then show ?case by simp
next
  case (Cons g gs)
  show ?case
  proof (cases "g \<noteq> 1 \<and> g \<noteq> N \<and> g \<noteq> 0 \<and> N mod g = 0")
    case True
    let ?st = "(print (PrintFactor g) st)\<lparr>FACTOR_FOUND := True\<rparr>"
    obtain gs' where "reported (stdout (final_state (check_guesses N gs ?st))) = reported (stdout ?st) @ gs'"
      and "\<forall>g \<in> set gs'. g \<noteq> 1 \<and> g \<noteq> N \<and> g dvd N"
      using Cons.IH [of ?st] by blast
    then have "reported (stdout (final_state (check_guesses N (g # gs) st))) = reported (stdout st) @ (g # gs')"
      and "\<forall>x \<in> set (g # gs'). x \<noteq> 1 \<and> x \<noteq> N \<and> x dvd N"
      using True by (simp_all add: print_def reported_append mod_eq_0_iff_dvd)
    then show ?thesis by blast
  next
    case False
    then show ?thesis
      using Cons.IH [of st] by auto
  qed
qed

lemma attempt_nonzero:
  assumes c: "c_amod15 a N = Inr c_U"
    and ph: "phase_estimation sampler c_U psi_prep 8 = Inr phase"
    and nz: "phase \<noteq> 0"
    and r: "extract_period phase N = Inr r"
  shows "attempt a N sampler st =
     Inr (st\<lparr>ATTEMPT := ATTEMPT st + 1,
            stdout := stdout st @
              [PrintAttempt (ATTEMPT st + 1), PrintR r,
               PrintGuessed (gcd (a ^ nat (r div 2) - 1) N) (gcd (a ^ nat (r div 2) + 1) N)] @
              map PrintFactor (filter (\<lambda>g. g \<noteq> 1 \<and> g \<noteq> N \<and> N mod g = 0)
                [gcd (a ^ nat (r div 2) - 1) N, gcd (a ^ nat (r div 2) + 1) N]),
            FACTOR_FOUND := FACTOR_FOUND st \<or>
              filter (\<lambda>g. g \<noteq> 1 \<and> g \<noteq> N \<and> N mod g = 0)
                [gcd (a ^ nat (r div 2) - 1) N, gcd (a ^ nat (r div 2) + 1) N] \<noteq> []\<rparr>)"
proof -
  have z: "\<forall>g \<in> set (guesses_of a r N). g = 0 \<longrightarrow> N = 0"
    by (simp add: guesses_of_def)
  show ?thesis
    unfolding attempt_def Let_def c ph sum.case r using nz
    by (simp add: check_guesses_ok [OF z] print_def guesses_of_def)
qed

lemma attempt_zero:
  assumes c: "c_amod15 a N = Inr c_U"
    and ph: "phase_estimation sampler c_U psi_prep 8 = Inr 0"
    and N: "1 \<le> N"
  shows "attempt a N sampler st =
     Inr (st\<lparr>ATTEMPT := ATTEMPT st + 1,
            stdout := stdout st @ [PrintAttempt (ATTEMPT st + 1), PrintR 1]\<rparr>)"
proof -
  have "extract_period 0 N = Inr 1"
    using N by (simp add: extract_period_def limit_denominator_def denominator_def)
  then show ?thesis
    unfolding attempt_def Let_def c sum.case ph
    by (simp add: print_def)
qed

lemma attempt_raises:
  assumes "a \<notin> {2, 4, 7, 8, 11, 13}"
  shows "attempt a N sampler st =
     Inl (ValueError_common_factors,
          print (PrintAttempt (ATTEMPT st + 1)) (st\<lparr>ATTEMPT := ATTEMPT st + 1\<rparr>))"
proof -
  have "c_amod15 a N = Inl ValueError_common_factors"
    using assms by (auto simp add: c_amod15_def)
  then show ?thesis
    by (simp add: attempt_def Let_def)
qed

lemma attempt_reports:
  "\<exists>gs'. reported (stdout (final_state (attempt a N sampler st))) = reported (stdout st) @ gs'
       \<and> (\<forall>g \<in> set gs'. g \<noteq> 1 \<and> g \<noteq> N \<and> g dvd N)"
proof -
  define st1 where "st1 = print (PrintAttempt (ATTEMPT st + 1)) (st\<lparr>ATTEMPT := ATTEMPT st + 1\<rparr>)"
  have st1: "reported (stdout st1) = reported (stdout st)"
    by (simp add: st1_def print_def reported_append)
  show ?thesis
  proof (cases "c_amod15 a N")
    case (Inl e)
    then show ?thesis
      using st1 by (simp add: attempt_def Let_def st1_def)
  next
    case c: (Inr c_U)
    show ?thesis
    proof (cases "phase_estimation sampler c_U psi_prep 8")
      case (Inl e)
      then show ?thesis
        using st1 c by (simp add: attempt_def Let_def st1_def)
    next
      case ph: (Inr phase)
      show ?thesis
      proof (cases "extract_period phase N")
        case (Inl e)
        then show ?thesis
          using st1 c ph by (simp add: attempt_def Let_def st1_def)
      next
        case r: (Inr r)
        define st2 where "st2 = print (PrintR r) st1"
        have st2: "reported (stdout st2) = reported (stdout st)"
          by (simp add: st2_def print_def reported_append st1)
        show ?thesis
        proof (cases "phase = 0")
          case True
          then show ?thesis
            using st2 c ph r by (simp add: attempt_def Let_def st1_def st2_def)
        next
          case False
          define st3 where
            "st3 = print (PrintGuessed (guesses_of a r N ! 0) (guesses_of a r N ! 1)) st2"
          have st3: "reported (stdout st3) = reported (stdout st)"
            by (simp add: st3_def print_def reported_append st2)
          have "attempt a N sampler st = check_guesses N (guesses_of a r N) st3"
            using False c ph r by (simp add: attempt_def Let_def st1_def st2_def st3_def)
          then show ?thesis
            using check_guesses_reports [of N "guesses_of a r N" st3] st3 by simp
        qed
      qed
    qed
  qed
qed

lemma shor_loop_reports:
  "shor_loop a N samplers st = Some res \<Longrightarrow>
   \<exists>gs'. reported (stdout (final_state res)) = reported (stdout st) @ gs'
       \<and> (\<forall>g \<in> set gs'. g \<noteq> 1 \<and> g \<noteq> N \<and> g dvd N)"
proof (induction samplers arbitrary: st)
  case Nil
  then show ?case by (auto split: if_splits)
next
  case (Cons sampler rest)
  show ?case
  proof (cases "FACTOR_FOUND st")
    case True
    with Cons.prems show ?thesis by auto
  next
    case False
    obtain gs1 where gs1: "reported (stdout (final_state (attempt a N sampler st))) = reported (stdout st) @ gs1"
      "\<forall>g \<in> set gs1. g \<noteq> 1 \<and> g \<noteq> N \<and> g dvd N"
      using attempt_reports by blast
    show ?thesis
    proof (cases "attempt a N sampler st")
      case (Inl e)
      with False Cons.prems have "res = attempt a N sampler st" by simp
      with gs1 show ?thesis by blast
    next
      case (Inr st')
      with False Cons.prems have "shor_loop a N rest st' = Some res" by simp
      then obtain gs2 where gs2: "reported (stdout (final_state res)) = reported (stdout st') @ gs2"
        "\<forall>g \<in> set gs2. g \<noteq> 1 \<and> g \<noteq> N \<and> g dvd N"
        using Cons.IH by blast
      from gs1 Inr have "reported (stdout st') = reported (stdout st) @ gs1" by simp
      with gs2 have "reported (stdout (final_state res)) = reported (stdout st) @ (gs1 @ gs2)"
        by simp
      moreover have "\<forall>g \<in> set (gs1 @ gs2). g \<noteq> 1 \<and> g \<noteq> N \<and> g dvd N"
        using gs1(2) gs2(2) by auto
      ultimately show ?thesis by blast
    qed
  qed
qed


subsection \<open>The loop body does not raise\<close>

text \<open>
  The continued-fraction loop of \<^verbatim>\<open>limit_denominator\<close> never divides by zero: the
  denominators \<open>q0\<close> and \<open>q1\<close> stay between 0 and the bound, \<open>q1 * n + q0 * d\<close> stays the
  denominator of the fraction, and \<open>n\<close> and \<open>d\<close> stay coprime, so that \<open>d\<close> cannot reach 0
  before \<open>q2\<close> exceeds the bound. Hence a period is always found and is positive, and a pass
  of the loop returns for every multiplier of the table, every sample of the 8-bit control
  register and every \<open>N\<close> of at least 1.
\<close>

lemma limit_denominator_loop_total:
  assumes "m < D"
    and "q1 * n + q0 * d = D" and "coprime n d"
    and "0 \<le> q0" and "q0 \<le> m" and "0 \<le> q1" and "q1 \<le> m" and "0 \<le> d"
    and "(q1 = 0 \<and> q0 = 1 \<and> 1 \<le> m) \<or> (1 \<le> q1 \<and> d < n)"
  shows "\<exists>p0' q0' p1' q1'. limit_denominator_loop m p0 q0 p1 q1 n d = Inr (p0', q0', p1', q1')
           \<and> 0 \<le> q0' \<and> q0' \<le> m \<and> 1 \<le> q1' \<and> q1' \<le> m"
  using assms
proof (induction m p0 q0 p1 q1 n d rule: limit_denominator_loop.induct)
  case (1 m p0 q0 p1 q1 n d)
  have d0: "d \<noteq> 0"
  proof
    assume z: "d = 0"
    with "1.prems"(3) have "is_unit n" by simp
    then have "\<bar>n\<bar> = 1" by simp
    moreover from z "1.prems"(2) have "q1 * n = D" by simp
    ultimately show False
      using "1.prems"(1,7,9) z by (auto simp: abs_if split: if_splits)
  qed
  with "1.prems"(8) have dpos: "0 < d" by simp
  define a where "a = n div d"
  define q2 where "q2 = q0 + a * q1"
  have step: "limit_denominator_loop m p0 q0 p1 q1 n d =
      (if q2 > m then Inr (p0, q0, p1, q1)
       else limit_denominator_loop m p1 q1 (p0 + a * p1) q2 d (n - a * d))"
    using d0 by (subst limit_denominator_loop.simps) (simp add: Let_def a_def q2_def)
  show ?case
  proof (cases "q2 > m")
    case True
    have "1 \<le> q1"
    proof (rule ccontr)
      assume "\<not> 1 \<le> q1"
      with "1.prems"(9) have "q1 = 0" "q0 = 1" "1 \<le> m" by auto
      with True show False by (simp add: q2_def)
    qed
    with True step "1.prems" show ?thesis by simp
  next
    case False
    have nmod: "n - a * d = n mod d"
      unfolding a_def by (simp add: minus_div_mult_eq_mod)
    have q2pos: "1 \<le> q2"
    proof (cases "q1 = 0")
      case True
      with "1.prems"(9) show ?thesis by (simp add: q2_def)
    next
      case F: False
      with "1.prems"(9) have "1 \<le> q1" "d < n" by auto
      with dpos have "0 < n div d"
        by (simp add: pos_imp_zdiv_pos_iff)
      then have "1 \<le> a"
        unfolding a_def by simp
      then have "1 \<le> a * q1"
        using \<open>1 \<le> q1\<close> mult_mono [of 1 a 1 q1] by simp
      with "1.prems"(4) show ?thesis by (simp add: q2_def)
    qed
    have inv1: "q2 * d + q1 * (n - a * d) = D"
      using "1.prems"(2) by (simp add: q2_def algebra_simps)
    have "gcd d (n mod d) = gcd n d"
      by (rule gcd_red_int [symmetric])
    with "1.prems"(3) have inv2: "coprime d (n - a * d)"
      unfolding nmod by (simp only: coprime_iff_gcd_eq_1)
    have inv3: "0 \<le> n - a * d" "n - a * d < d"
      unfolding nmod using dpos by simp_all
    have "\<exists>p0' q0' p1' q1'.
        limit_denominator_loop m p1 q1 (p0 + a * p1) q2 d (n - a * d) = Inr (p0', q0', p1', q1')
        \<and> 0 \<le> q0' \<and> q0' \<le> m \<and> 1 \<le> q1' \<and> q1' \<le> m"
      using "1.IH" [OF d0 a_def q2_def False "1.prems"(1) inv1 inv2 "1.prems"(6,7)]
        q2pos False inv3 by simp
    with step False show ?thesis by simp
  qed
qed

lemma limit_denominator_total:
  assumes "1 \<le> N"
  shows "\<exists>f. limit_denominator self N = Inr f"
proof (cases "denominator self \<le> N")
  case True
  with assms show ?thesis by (simp add: limit_denominator_def)
next
  case False
  obtain n d where nd: "quotient_of self = (n, d)" by (cases "quotient_of self")
  then have dpos: "0 < d" and cop: "coprime n d"
    by (simp_all add: quotient_of_denom_pos quotient_of_coprime)
  from False nd have big: "N < d" by (simp add: denominator_def)
  obtain p0 q0 p1 q1 where
    loop: "limit_denominator_loop N 0 1 1 0 n d = Inr (p0, q0, p1, q1)"
    and q: "0 \<le> q0" "q0 \<le> N" "1 \<le> q1" "q1 \<le> N"
    using limit_denominator_loop_total [of N d 0 n 1 d 0 1] big cop dpos assms
    by auto
  define k where "k = (N - q0) div q1"
  have "0 \<le> k"
    unfolding k_def using q by (simp add: pos_imp_zdiv_nonneg_iff)
  have "q0 + k * q1 \<noteq> 0"
  proof (cases "q0 = 0")
    case True
    then have "0 < k"
      unfolding k_def using q by (simp add: pos_imp_zdiv_pos_iff)
    with True q(3) show ?thesis by simp
  next
    case False
    with q(1) have "0 < q0" by simp
    moreover have "0 \<le> k * q1" using \<open>0 \<le> k\<close> q(3) by simp
    ultimately show ?thesis by simp
  qed
  moreover have "q1 \<noteq> 0" using q(3) by simp
  ultimately show ?thesis
    using assms False nd loop
    by (simp add: limit_denominator_def numerator_def denominator_def Fraction_def k_def Let_def)
qed

lemma extract_period_total:
  assumes "1 \<le> N"
  shows "\<exists>r. extract_period phase N = Inr r \<and> 0 < r"
proof -
  obtain f where "limit_denominator phase N = Inr f"
    using limit_denominator_total [OF assms] by blast
  moreover have "0 < snd (quotient_of f)"
    by (cases "quotient_of f") (simp add: quotient_of_denom_pos)
  ultimately show ?thesis
    by (simp add: extract_period_def denominator_def)
qed

lemma attempt_returns:
  assumes "a \<in> {2, 4, 7, 8, 11, 13}" and "1 \<le> N"
    and "\<And>qc. 0 \<le> sampler qc \<and> sampler qc < 2 ^ 8"
  shows "\<exists>st'. attempt a N sampler st = Inr st'"
proof -
  obtain c_U where c: "c_amod15 a N = Inr c_U"
    using assms(1) base_c_amod15 by blast
  have "phase_estimation sampler c_U psi_prep 8 =
      Inr (of_int (sampler (build_circuit c_U psi_prep 8)) / 2 ^ 8)"
    by (rule phase_estimation_exact) (use assms(3) in simp_all)
  then obtain phase where ph: "phase_estimation sampler c_U psi_prep 8 = Inr phase"
    by blast
  obtain r where r: "extract_period phase N = Inr r"
    using extract_period_total [OF assms(2)] by blast
  show ?thesis
  proof (cases "phase = 0")
    case True
    with ph have "phase_estimation sampler c_U psi_prep 8 = Inr 0" by simp
    then show ?thesis
      using attempt_zero [OF c _ assms(2)] by blast
  next
    case False
    then show ?thesis
      using attempt_nonzero [OF c ph False r] by blast
  qed
qed

subsection \<open>The period of a phase\<close>

text \<open>
  Claim C1. For a phase that is the fraction \<open>p / q\<close> in lowest terms with \<open>q\<close> at most \<open>N\<close>,
  \<^verbatim>\<open>Fraction(phase).limit_denominator(N).denominator\<close> is \<open>q\<close>; and for the phase 0 it is 1
  (the bound \<open>N\<close> being at least 1, below which \<^verbatim>\<open>limit_denominator\<close> raises; the program's
  bound is 15).
\<close>

theorem extract_period_round_trip:
  "(coprime p q \<and> 0 < q \<and> q \<le> N \<longrightarrow> extract_period (Fract p q) N = Inr q)
   \<and> (1 \<le> N \<longrightarrow> extract_period 0 N = Inr 1)"
  by (simp add: extract_period_def limit_denominator_def denominator_def quotient_of_Fract
      Rat.normalize_stable)

theorem extract_period_round_trip_witness:
  "coprime (1::int) 4 \<and> (0::int) < 4 \<and> (4::int) \<le> 15 \<and> extract_period (Fract 1 4) 15 = Inr 4
   \<and> (1::int) \<le> 15 \<and> extract_period 0 15 = Inr 1"
  using extract_period_round_trip [of 1 4 15] by simp


subsection \<open>The multiplier that is not in the table\<close>

text \<open>
  Claim C7. \<^verbatim>\<open>c_amod15\<close> raises its \<^verbatim>\<open>ValueError\<close> exactly when \<open>a\<close> is none of 2, 4, 7, 8,
  11, 13, and returns an operator exactly when it is one of them; in the loop the error
  ends the run in the first pass, after the attempt number was printed, and nothing
  catches it.
\<close>

theorem c_amod15_invalid_multiplier:
  "(c_amod15 a N = Inl ValueError_common_factors \<longleftrightarrow> a \<notin> {2, 4, 7, 8, 11, 13})
   \<and> ((\<exists>c_U. c_amod15 a N = Inr c_U) \<longleftrightarrow> a \<in> {2, 4, 7, 8, 11, 13})
   \<and> (a \<notin> {2, 4, 7, 8, 11, 13} \<and> \<not> FACTOR_FOUND st \<longrightarrow>
        shor_loop a N (sampler # rest) st =
          Some (Inl (ValueError_common_factors,
                     print (PrintAttempt (ATTEMPT st + 1)) (st\<lparr>ATTEMPT := ATTEMPT st + 1\<rparr>))))"
proof -
  have "c_amod15 a N = Inl ValueError_common_factors \<longleftrightarrow> a \<notin> {2, 4, 7, 8, 11, 13}"
    by (auto simp add: c_amod15_def Let_def)
  moreover have "(\<exists>c_U. c_amod15 a N = Inr c_U) \<longleftrightarrow> a \<in> {2, 4, 7, 8, 11, 13}"
    by (auto simp add: c_amod15_def Let_def)
  ultimately show ?thesis
    by (simp add: attempt_raises)
qed

theorem c_amod15_invalid_multiplier_witness:
  "(3::int) \<notin> {2, 4, 7, 8, 11, 13}
   \<and> \<not> FACTOR_FOUND \<lparr>FACTOR_FOUND = False, ATTEMPT = 0, stdout = []\<rparr>
   \<and> c_amod15 3 15 = Inl ValueError_common_factors
   \<and> shor_loop 3 15 [\<lambda>qc. 64] \<lparr>FACTOR_FOUND = False, ATTEMPT = 0, stdout = []\<rparr> =
       Some (Inl (ValueError_common_factors,
                  \<lparr>FACTOR_FOUND = False, ATTEMPT = 1, stdout = [PrintAttempt 1]\<rparr>))"
  using c_amod15_invalid_multiplier [of 3 15 "\<lparr>FACTOR_FOUND = False, ATTEMPT = 0, stdout = []\<rparr>" "\<lambda>qc. 64" "[]"]
  by (simp add: print_def)


subsection \<open>A pass whose phase is 0\<close>

text \<open>
  Claim C8. In a pass of the loop whose estimated phase is 0 no guesses are computed and
  no factor is reported: the pass returns without an error, it has only counted the
  attempt and printed the attempt number and \<open>r = 1\<close>, \<^verbatim>\<open>FACTOR_FOUND\<close> is as before, and the
  loop goes on with the next pass.
\<close>

theorem degenerate_phase_retried:
  assumes "c_amod15 a N = Inr c_U"
    and "phase_estimation sampler c_U psi_prep 8 = Inr 0"
    and "1 \<le> N"
  shows "attempt a N sampler st =
           Inr (st\<lparr>ATTEMPT := ATTEMPT st + 1,
                  stdout := stdout st @ [PrintAttempt (ATTEMPT st + 1), PrintR 1]\<rparr>)
         \<and> (\<not> FACTOR_FOUND st \<longrightarrow>
              shor_loop a N (sampler # rest) st =
                shor_loop a N rest
                  (st\<lparr>ATTEMPT := ATTEMPT st + 1,
                      stdout := stdout st @ [PrintAttempt (ATTEMPT st + 1), PrintR 1]\<rparr>))"
  by (simp add: attempt_zero [OF assms])

theorem degenerate_phase_retried_witness:
  "c_amod15 8 15 = Inr (ControlledGate (Gate ''8 mod 15''
       \<lparr>num_qubits = 4, data = [SwapGate 0 1, SwapGate 1 2, SwapGate 2 3]\<rparr>))
   \<and> phase_estimation (\<lambda>qc. 0) (ControlledGate (Gate ''8 mod 15''
       \<lparr>num_qubits = 4, data = [SwapGate 0 1, SwapGate 1 2, SwapGate 2 3]\<rparr>)) psi_prep 8 = Inr 0
   \<and> (1::int) \<le> 15
   \<and> attempt 8 15 (\<lambda>qc. 0) \<lparr>FACTOR_FOUND = False, ATTEMPT = 0, stdout = []\<rparr> =
       Inr \<lparr>FACTOR_FOUND = False, ATTEMPT = 1, stdout = [PrintAttempt 1, PrintR 1]\<rparr>
   \<and> \<not> FACTOR_FOUND \<lparr>FACTOR_FOUND = False, ATTEMPT = 0, stdout = []\<rparr>
   \<and> shor_loop 8 15 [\<lambda>qc. 0] \<lparr>FACTOR_FOUND = False, ATTEMPT = 0, stdout = []\<rparr> = None"
  using degenerate_phase_retried [OF c_amod15_8 phase_0, of "\<lparr>FACTOR_FOUND = False, ATTEMPT = 0, stdout = []\<rparr>" "[]"]
    c_amod15_8 phase_0
  by simp

subsection \<open>A pass whose phase is not 0\<close>

text \<open>
  Claim C2. In a pass with a phase other than 0 and the period \<open>r\<close>, the two guesses are
  \<open>gcd (a ^ (r div 2) - 1) N\<close> and \<open>gcd (a ^ (r div 2) + 1) N\<close>, in this order; the factors
  reported are exactly the guesses that are neither 1 nor \<open>N\<close> and leave no remainder when
  \<open>N\<close> is divided by them; and whatever a run of the loop reports, from any state and with
  any samplers, is neither 1 nor \<open>N\<close> and divides \<open>N\<close>.
\<close>

theorem driver_guesses_and_reports:
  assumes "c_amod15 a N = Inr c_U"
    and "phase_estimation sampler c_U psi_prep 8 = Inr phase"
    and "phase \<noteq> 0"
    and "extract_period phase N = Inr r"
  shows "attempt a N sampler st =
     Inr (st\<lparr>ATTEMPT := ATTEMPT st + 1,
            stdout := stdout st @
              [PrintAttempt (ATTEMPT st + 1), PrintR r,
               PrintGuessed (gcd (a ^ nat (r div 2) - 1) N) (gcd (a ^ nat (r div 2) + 1) N)] @
              map PrintFactor (filter (\<lambda>g. g \<noteq> 1 \<and> g \<noteq> N \<and> N mod g = 0)
                [gcd (a ^ nat (r div 2) - 1) N, gcd (a ^ nat (r div 2) + 1) N]),
            FACTOR_FOUND := FACTOR_FOUND st \<or>
              filter (\<lambda>g. g \<noteq> 1 \<and> g \<noteq> N \<and> N mod g = 0)
                [gcd (a ^ nat (r div 2) - 1) N, gcd (a ^ nat (r div 2) + 1) N] \<noteq> []\<rparr>)
     \<and> (\<forall>res. shor_loop a N samplers st = Some res \<longrightarrow>
          (\<exists>gs. reported (stdout (final_state res)) = reported (stdout st) @ gs
               \<and> (\<forall>g \<in> set gs. g \<noteq> 1 \<and> g \<noteq> N \<and> g dvd N)))"
  using attempt_nonzero [OF assms] shor_loop_reports by blast

theorem driver_guesses_and_reports_witness:
  "c_amod15 8 15 = Inr (ControlledGate (Gate ''8 mod 15''
       \<lparr>num_qubits = 4, data = [SwapGate 0 1, SwapGate 1 2, SwapGate 2 3]\<rparr>))
   \<and> phase_estimation (\<lambda>qc. 64) (ControlledGate (Gate ''8 mod 15''
       \<lparr>num_qubits = 4, data = [SwapGate 0 1, SwapGate 1 2, SwapGate 2 3]\<rparr>)) psi_prep 8 = Inr (1 / 4)
   \<and> (1::rat) / 4 \<noteq> 0
   \<and> extract_period (1 / 4) 15 = Inr 4
   \<and> attempt 8 15 (\<lambda>qc. 64) \<lparr>FACTOR_FOUND = False, ATTEMPT = 0, stdout = []\<rparr> =
       Inr \<lparr>FACTOR_FOUND = True, ATTEMPT = 1,
            stdout = [PrintAttempt 1, PrintR 4, PrintGuessed 3 5, PrintFactor 3, PrintFactor 5]\<rparr>
   \<and> shor_loop 8 15 [\<lambda>qc. 64] \<lparr>FACTOR_FOUND = False, ATTEMPT = 0, stdout = []\<rparr> =
       Some (Inr \<lparr>FACTOR_FOUND = True, ATTEMPT = 1,
            stdout = [PrintAttempt 1, PrintR 4, PrintGuessed 3 5, PrintFactor 3, PrintFactor 5]\<rparr>)
   \<and> reported [PrintAttempt 1, PrintR 4, PrintGuessed 3 5, PrintFactor 3, PrintFactor 5] = [3, 5]
   \<and> (3::int) dvd 15 \<and> (5::int) dvd 15"
proof -
  have nz: "(1::rat) / 4 \<noteq> 0"
    by simp
  note inst = driver_guesses_and_reports [OF c_amod15_8 phase_64 nz period_quarter,
        of "\<lparr>FACTOR_FOUND = False, ATTEMPT = 0, stdout = []\<rparr>" "[\<lambda>qc. 64]"]
  have att: "attempt 8 15 (\<lambda>qc. 64) \<lparr>FACTOR_FOUND = False, ATTEMPT = 0, stdout = []\<rparr> =
       Inr \<lparr>FACTOR_FOUND = True, ATTEMPT = 1,
            stdout = [PrintAttempt 1, PrintR 4, PrintGuessed 3 5, PrintFactor 3, PrintFactor 5]\<rparr>"
    using inst [THEN conjunct1] by (simp add: guesses_8_4)
  have run: "shor_loop 8 15 [\<lambda>qc. 64] \<lparr>FACTOR_FOUND = False, ATTEMPT = 0, stdout = []\<rparr> =
       Some (Inr \<lparr>FACTOR_FOUND = True, ATTEMPT = 1,
            stdout = [PrintAttempt 1, PrintR 4, PrintGuessed 3 5, PrintFactor 3, PrintFactor 5]\<rparr>)"
    by (simp add: att)
  have rep: "reported [PrintAttempt 1, PrintR 4, PrintGuessed 3 5, PrintFactor 3, PrintFactor 5] = [3, 5]"
    by simp
  obtain gs where gs: "reported (stdout (final_state (Inr \<lparr>FACTOR_FOUND = True, ATTEMPT = 1,
            stdout = [PrintAttempt 1, PrintR 4, PrintGuessed 3 5, PrintFactor 3, PrintFactor 5]\<rparr>)))
         = reported (stdout \<lparr>FACTOR_FOUND = False, ATTEMPT = 0, stdout = []\<rparr>) @ gs"
      and ok: "\<forall>g \<in> set gs. g \<noteq> 1 \<and> g \<noteq> 15 \<and> g dvd 15"
    using inst [THEN conjunct2] run by blast
  from gs have "gs = [3, 5]"
    by simp
  with ok have dv: "(3::int) dvd 15" "(5::int) dvd 15"
    by simp_all
  from c_amod15_8 phase_64 nz period_quarter att run rep dv show ?thesis
    by (intro conjI)
qed

text \<open>
  Claim C10. When both guesses of a pass are divisors of \<open>N\<close> other than 1 and \<open>N\<close>, the pass
  reports the first and then the second, and the loop ends with the state reached after
  both reports: the first report does not end the pass.
\<close>

theorem both_guesses_reported:
  assumes "c_amod15 a N = Inr c_U"
    and "phase_estimation sampler c_U psi_prep 8 = Inr phase"
    and "phase \<noteq> 0"
    and "extract_period phase N = Inr r"
    and "gcd (a ^ nat (r div 2) - 1) N \<notin> {1, N}"
    and "gcd (a ^ nat (r div 2) + 1) N \<notin> {1, N}"
    and "\<not> FACTOR_FOUND st"
  shows "attempt a N sampler st =
     Inr (st\<lparr>ATTEMPT := ATTEMPT st + 1,
            stdout := stdout st @
              [PrintAttempt (ATTEMPT st + 1), PrintR r,
               PrintGuessed (gcd (a ^ nat (r div 2) - 1) N) (gcd (a ^ nat (r div 2) + 1) N),
               PrintFactor (gcd (a ^ nat (r div 2) - 1) N),
               PrintFactor (gcd (a ^ nat (r div 2) + 1) N)],
            FACTOR_FOUND := True\<rparr>)
     \<and> shor_loop a N (sampler # rest) st =
       Some (Inr (st\<lparr>ATTEMPT := ATTEMPT st + 1,
            stdout := stdout st @
              [PrintAttempt (ATTEMPT st + 1), PrintR r,
               PrintGuessed (gcd (a ^ nat (r div 2) - 1) N) (gcd (a ^ nat (r div 2) + 1) N),
               PrintFactor (gcd (a ^ nat (r div 2) - 1) N),
               PrintFactor (gcd (a ^ nat (r div 2) + 1) N)],
            FACTOR_FOUND := True\<rparr>))"
proof -
  have d: "N mod gcd (a ^ nat (r div 2) - 1) N = 0" "N mod gcd (a ^ nat (r div 2) + 1) N = 0"
    by (simp_all add: mod_eq_0_iff_dvd)
  have att: "attempt a N sampler st =
     Inr (st\<lparr>ATTEMPT := ATTEMPT st + 1,
            stdout := stdout st @
              [PrintAttempt (ATTEMPT st + 1), PrintR r,
               PrintGuessed (gcd (a ^ nat (r div 2) - 1) N) (gcd (a ^ nat (r div 2) + 1) N),
               PrintFactor (gcd (a ^ nat (r div 2) - 1) N),
               PrintFactor (gcd (a ^ nat (r div 2) + 1) N)],
            FACTOR_FOUND := True\<rparr>)"
    using assms(5,6) d by (simp add: attempt_nonzero [OF assms(1,2,3,4)])
  show ?thesis
  proof (cases rest)
    case Nil
    with att assms(7) show ?thesis by simp
  next
    case (Cons s ss)
    with att assms(7) show ?thesis by simp
  qed
qed

theorem both_guesses_reported_witness:
  "c_amod15 8 15 = Inr (ControlledGate (Gate ''8 mod 15''
       \<lparr>num_qubits = 4, data = [SwapGate 0 1, SwapGate 1 2, SwapGate 2 3]\<rparr>))
   \<and> phase_estimation (\<lambda>qc. 64) (ControlledGate (Gate ''8 mod 15''
       \<lparr>num_qubits = 4, data = [SwapGate 0 1, SwapGate 1 2, SwapGate 2 3]\<rparr>)) psi_prep 8 = Inr (1 / 4)
   \<and> (1::rat) / 4 \<noteq> 0
   \<and> extract_period (1 / 4) 15 = Inr 4
   \<and> gcd ((8::int) ^ nat (4 div 2) - 1) 15 \<notin> {1, 15}
   \<and> gcd ((8::int) ^ nat (4 div 2) + 1) 15 \<notin> {1, 15}
   \<and> \<not> FACTOR_FOUND \<lparr>FACTOR_FOUND = False, ATTEMPT = 0, stdout = []\<rparr>
   \<and> shor_loop 8 15 [\<lambda>qc. 64, \<lambda>qc. 0] \<lparr>FACTOR_FOUND = False, ATTEMPT = 0, stdout = []\<rparr> =
       Some (Inr \<lparr>FACTOR_FOUND = True, ATTEMPT = 1,
            stdout = [PrintAttempt 1, PrintR 4, PrintGuessed 3 5, PrintFactor 3, PrintFactor 5]\<rparr>)"
proof -
  have nz: "(1::rat) / 4 \<noteq> 0"
    by simp
  have g: "gcd ((8::int) ^ nat (4 div 2) - 1) 15 \<notin> {1, 15}"
    "gcd ((8::int) ^ nat (4 div 2) + 1) 15 \<notin> {1, 15}"
    by (simp_all only: guesses_8_4(1,2)) simp_all
  have f: "\<not> FACTOR_FOUND \<lparr>FACTOR_FOUND = False, ATTEMPT = 0, stdout = []\<rparr>"
    by simp
  have run: "shor_loop 8 15 [\<lambda>qc. 64, \<lambda>qc. 0] \<lparr>FACTOR_FOUND = False, ATTEMPT = 0, stdout = []\<rparr> =
       Some (Inr \<lparr>FACTOR_FOUND = True, ATTEMPT = 1,
            stdout = [PrintAttempt 1, PrintR 4, PrintGuessed 3 5, PrintFactor 3, PrintFactor 5]\<rparr>)"
    using both_guesses_reported [OF c_amod15_8 phase_64 nz period_quarter g f, of "[\<lambda>qc. 0]",
        THEN conjunct2]
    by (simp add: guesses_8_4)
  from c_amod15_8 phase_64 nz period_quarter g f run show ?thesis
    by (intro conjI)
qed

end
